theory Spec2Isabelle
  imports Main "HOL-Library.Word" "HOL-Library.Multiset"
begin

section \<open>VaultX: the vault engine as a shallow embedding\<close>

text \<open>
  The TypeScript sources are embedded function by function. Awaited calls into
  collaborators (identity provider, secure storage, random generator, blob store) become
  explicit inputs of the action that awaits them; an awaited call that may reject is an
  \<open>outcome\<close>. The zustand store is a record that every action takes and returns.
\<close>

subsection \<open>Bytes, awaited results\<close>

type_synonym byte = "8 word"

type_synonym bytes = "byte list"

datatype 'a outcome = Throws | Returns 'a

subsection \<open>Hex encoding (\<open>Buffer.toString('hex')\<close>, \<open>WordArray.toString()\<close>)\<close>

definition hexDigit :: "nat \<Rightarrow> char" where
  "hexDigit n = ''0123456789abcdef'' ! (n mod 16)"

definition hexByte :: "byte \<Rightarrow> string" where
  "hexByte b = [hexDigit (unat b div 16), hexDigit (unat b mod 16)]"

definition Hex_stringify :: "bytes \<Rightarrow> string" where
  "Hex_stringify bs = concat (map hexByte bs)"

subsection \<open>The CryptoJS primitives the sources call\<close>

text \<open>
  \<open>crypto-js\<close> is a dependency, not part of the sources. Its primitives are a parameter
  of every function that calls them:
  \<^item> \<open>Hex_parse\<close>: \<open>CryptoJS.enc.Hex.parse\<close>;
  \<^item> \<open>PBKDF2 password salt keySize iterations\<close>: \<open>CryptoJS.PBKDF2\<close> with the SHA256 hasher;
  \<^item> \<open>AES_encrypt data key iv\<close>: \<open>CryptoJS.AES.encrypt(data, key, {iv, CBC, Pkcs7}).ciphertext\<close>;
  \<^item> \<open>AES_decrypt ciphertext key iv\<close>: \<open>CryptoJS.AES.decrypt({ciphertext}, key, {iv, CBC, Pkcs7})\<close>;
  \<^item> \<open>Utf8_stringify\<close>: \<open>WordArray.toString(CryptoJS.enc.Utf8)\<close>, which throws on
    malformed UTF-8;
  \<^item> \<open>HmacSHA256 message key\<close>: \<open>CryptoJS.HmacSHA256\<close>.
\<close>

record cryptojs =
  Hex_parse :: "string \<Rightarrow> bytes"
  PBKDF2 :: "string \<Rightarrow> bytes \<Rightarrow> nat \<Rightarrow> nat \<Rightarrow> bytes"
  AES_encrypt :: "string \<Rightarrow> bytes \<Rightarrow> bytes \<Rightarrow> bytes"
  AES_decrypt :: "bytes \<Rightarrow> bytes \<Rightarrow> bytes \<Rightarrow> bytes"
  Utf8_stringify :: "bytes \<Rightarrow> string outcome"
  HmacSHA256 :: "string \<Rightarrow> bytes \<Rightarrow> bytes"

subsection \<open>keyDerivation.ts\<close>

definition ITERATIONS :: nat where
  "ITERATIONS = 100000"

definition KEY_SIZE :: nat where
  "KEY_SIZE = 256 div 32"

definition SALT_SIZE :: nat where
  "SALT_SIZE = 16"

text \<open>
  The random generator \<open>ExpoRandom.getRandomBytesAsync\<close> is a tape of bytes: a call for
  \<open>size\<close> bytes returns the next \<open>size\<close> bytes and the rest of the tape.
\<close>

type_synonym rng = "nat \<Rightarrow> byte"

definition getRandomBytesAsync :: "nat \<Rightarrow> rng \<Rightarrow> bytes \<times> rng" where
  "getRandomBytesAsync n t = (map t [0..<n], (\<lambda>i. t (i + n)))"

definition generateRandomBytes :: "nat \<Rightarrow> rng \<Rightarrow> string \<times> rng" where
  "generateRandomBytes n t =
     (let (randomBytes, t') = getRandomBytesAsync n t in (Hex_stringify randomBytes, t'))"

definition deriveMasterKey :: "cryptojs \<Rightarrow> string \<Rightarrow> string \<Rightarrow> string" where
  "deriveMasterKey L pin salt =
     Hex_stringify (PBKDF2 L pin (Hex_parse L salt) KEY_SIZE ITERATIONS)"

definition generateSalt :: "rng \<Rightarrow> string \<times> rng" where
  "generateSalt t = generateRandomBytes SALT_SIZE t"

definition generateFEK :: "rng \<Rightarrow> string \<times> rng" where
  "generateFEK t = generateRandomBytes 32 t"

definition generateIV :: "rng \<Rightarrow> string \<times> rng" where
  "generateIV t = generateRandomBytes 12 t"

subsection \<open>pinHash.ts\<close>

text \<open>
  \<open>services/crypto/pinHash.ts\<close> (\<open>hashPin\<close>, \<open>verifyPin\<close>, \<open>generatePinSalt\<close>) is
  imported by the store but is not among the sources. The slow salted hash \<open>hashPin\<close>
  is a parameter \<open>H\<close> of every function that calls it (\<open>H pin salt\<close>).
\<close>

type_synonym hashPin = "string \<Rightarrow> string \<Rightarrow> string"

text \<open>
  Modelled from the spec: \<open>verifyPin\<close> of the absent \<open>pinHash.ts\<close>. The spec's contract
  is \<open>hash(credential, salt) -> commitment\<close> and
  \<open>verify(credential, salt, commitment) -> bool\<close>: verification recomputes the
  commitment of the submitted credential under the stored salt and compares it with the
  stored commitment.
\<close>

definition verifyPin :: "hashPin \<Rightarrow> string \<Rightarrow> string \<Rightarrow> string \<Rightarrow> bool" where
  "verifyPin H pin salt hash = (H pin salt = hash)"

text \<open>
  Modelled from the spec: \<open>generatePinSalt\<close> of the absent \<open>pinHash.ts\<close>. The spec asks
  for a second, distinct random salt for the commitment and fixes neither its length nor
  its encoding. The generator is a parameter \<open>G\<close> of every function that calls it: it
  reads the random generator, returns the salt and leaves the rest of the generator to
  the calls that follow.
\<close>

type_synonym generatePinSalt = "rng \<Rightarrow> string \<times> rng"

subsection \<open>types/index.ts\<close>

datatype AppState =
  UNAUTHENTICATED | AUTHENTICATED | VAULT_LOCKED | VAULT_UNLOCKED | DURESS_MODE

record User =
  user_id :: string
  email :: string

datatype DocType = pdf | image

record VaultDocument =
  doc_id :: string
  doc_name :: string
  doc_type :: DocType
  mimeType :: string
  doc_size :: nat
  createdAt :: nat
  doc_shardIds :: "string list"
  doc_encryptedFEK :: string
  doc_iv :: string

record LocalVaultMetadata =
  documents :: "VaultDocument list"
  decoyDocuments :: "VaultDocument list"
  lastUpdated :: nat

record SecureLocalData =
  pinHash :: string
  pinSalt :: string
  duressHash :: string
  duressSalt :: string
  masterKeySalt :: string
  biometricEnabled :: bool
  setupComplete :: bool

subsection \<open>store/authStore.ts\<close>

record AuthStore =
  appState :: AppState
  user :: "User option"
  secureData :: "SecureLocalData option"
  vaultMetadata :: "LocalVaultMetadata option"
  masterKey :: "string option"
  isLoading :: bool
  error :: "string option"

definition initialStore :: AuthStore where
  "initialStore =
     \<lparr>appState = UNAUTHENTICATED, user = None, secureData = None, vaultMetadata = None,
      masterKey = None, isLoading = True, error = None\<rparr>"

text \<open>The result object of the identity provider's \<open>signIn\<close> and \<open>signUp\<close>.\<close>

record AuthResult =
  success_r :: bool
  user_r :: "User option"
  error_r :: "string option"

definition emptyMetadata :: "nat \<Rightarrow> LocalVaultMetadata" where
  "emptyMetadata now = \<lparr>documents = [], decoyDocuments = [], lastUpdated = now\<rparr>"

text \<open>\<open>secureData?.setupComplete ? 'VAULT_LOCKED' : 'AUTHENTICATED'\<close>\<close>

definition stateAfterLoad :: "SecureLocalData option \<Rightarrow> AppState" where
  "stateAfterLoad sd =
     (case sd of None \<Rightarrow> AUTHENTICATED
      | Some d \<Rightarrow> if setupComplete d then VAULT_LOCKED else AUTHENTICATED)"

text \<open>\<open>x || dflt\<close> on an optional string: null, undefined and the empty string are falsy.\<close>

definition orElse :: "string option \<Rightarrow> string \<Rightarrow> string" where
  "orElse x dflt = (case x of None \<Rightarrow> dflt | Some s \<Rightarrow> if s = [] then dflt else s)"

text \<open>
  \<open>initialize\<close>: \<open>session\<close> is what \<open>getSession()\<close> gave (or that it threw), \<open>sd\<close> and
  \<open>md\<close> what \<open>loadSecureData()\<close> and \<open>loadVaultMetadata()\<close> gave (both catch their own
  errors and return null), \<open>now\<close> is \<open>Date.now()\<close>.
\<close>

definition initialize ::
  "User option outcome \<Rightarrow> SecureLocalData option \<Rightarrow> LocalVaultMetadata option \<Rightarrow> nat \<Rightarrow>
   AuthStore \<Rightarrow> AuthStore" where
  "initialize session sd md now st =
     (let st1 = st\<lparr>isLoading := True\<rparr>;
          st2 = (case session of
                   Returns (Some u) \<Rightarrow>
                     st1\<lparr>user := Some u, secureData := sd,
                         vaultMetadata := Some (case md of Some m \<Rightarrow> m | None \<Rightarrow> emptyMetadata now),
                         appState := stateAfterLoad sd\<rparr>
                 | Returns None \<Rightarrow> st1\<lparr>appState := UNAUTHENTICATED\<rparr>
                 | Throws \<Rightarrow> st1\<lparr>appState := UNAUTHENTICATED\<rparr>)
      in st2\<lparr>isLoading := False\<rparr>)"

text \<open>
  \<open>signIn\<close>, \<open>signUp\<close>, \<open>signOut\<close>: the first component is the promise's result
  (\<open>Throws\<close> when the awaited provider call rejects, which the store does not catch).
\<close>

definition signIn ::
  "AuthResult outcome \<Rightarrow> SecureLocalData option \<Rightarrow> LocalVaultMetadata option \<Rightarrow> nat \<Rightarrow>
   AuthStore \<Rightarrow> bool outcome \<times> AuthStore" where
  "signIn res sd md now st =
     (let st1 = st\<lparr>isLoading := True, error := None\<rparr> in
      case res of
        Throws \<Rightarrow> (Throws, st1)
      | Returns r \<Rightarrow>
          (case (success_r r, user_r r) of
             (True, Some u) \<Rightarrow>
               (Returns True,
                st1\<lparr>user := Some u, secureData := sd,
                    vaultMetadata := Some (case md of Some m \<Rightarrow> m | None \<Rightarrow> emptyMetadata now),
                    appState := stateAfterLoad sd, isLoading := False\<rparr>)
           | _ \<Rightarrow>
               (Returns False,
                st1\<lparr>error := Some (orElse (error_r r) ''Sign in failed''), isLoading := False\<rparr>)))"

definition signUp :: "AuthResult outcome \<Rightarrow> nat \<Rightarrow> AuthStore \<Rightarrow> bool outcome \<times> AuthStore" where
  "signUp res now st =
     (let st1 = st\<lparr>isLoading := True, error := None\<rparr> in
      case res of
        Throws \<Rightarrow> (Throws, st1)
      | Returns r \<Rightarrow>
          (case (success_r r, user_r r) of
             (True, Some u) \<Rightarrow>
               (Returns True,
                st1\<lparr>user := Some u, appState := AUTHENTICATED,
                    vaultMetadata := Some (emptyMetadata now), isLoading := False\<rparr>)
           | _ \<Rightarrow>
               (Returns False,
                st1\<lparr>error := Some (orElse (error_r r) ''Sign up failed''), isLoading := False\<rparr>)))"

definition signOut :: "unit outcome \<Rightarrow> AuthStore \<Rightarrow> unit outcome \<times> AuthStore" where
  "signOut res st =
     (let st1 = st\<lparr>isLoading := True\<rparr> in
      case res of
        Throws \<Rightarrow> (Throws, st1)
      | Returns _ \<Rightarrow>
          (Returns (),
           st1\<lparr>user := None, secureData := None, vaultMetadata := None, masterKey := None,
               appState := UNAUTHENTICATED, isLoading := False\<rparr>))"

text \<open>
  \<open>setupPins\<close>: \<open>rnd\<close> is the random generator, \<open>Throws\<close> when a call inside the
  \<open>try\<close> block throws (the \<open>catch\<close> returns false and sets nothing).
  \<open>saveSecureData\<close> catches its own errors and its boolean result is ignored.
\<close>

definition newSecureData ::
  "generatePinSalt \<Rightarrow> hashPin \<Rightarrow> rng \<Rightarrow> string \<Rightarrow> string \<Rightarrow> AuthStore \<Rightarrow> SecureLocalData" where
  "newSecureData G H t primaryPin duressPin st =
     (let (pinSalt', t1) = G t;
          (duressSalt', t2) = G t1;
          (masterKeySalt', t3) = generateSalt t2;
          pinHash' = H primaryPin pinSalt';
          duressHash' = H duressPin duressSalt'
      in \<lparr>pinHash = pinHash', pinSalt = pinSalt', duressHash = duressHash',
          duressSalt = duressSalt', masterKeySalt = masterKeySalt',
          biometricEnabled = (case secureData st of None \<Rightarrow> False | Some d \<Rightarrow> biometricEnabled d),
          setupComplete = False\<rparr>)"

definition setupPins ::
  "generatePinSalt \<Rightarrow> hashPin \<Rightarrow> rng outcome \<Rightarrow> string \<Rightarrow> string \<Rightarrow> AuthStore
     \<Rightarrow> bool \<times> AuthStore" where
  "setupPins G H rnd primaryPin duressPin st =
     (case rnd of
        Throws \<Rightarrow> (False, st)
      | Returns t \<Rightarrow> (True, st\<lparr>secureData := Some (newSecureData G H t primaryPin duressPin st)\<rparr>))"

definition enableBiometrics :: "bool \<Rightarrow> AuthStore \<Rightarrow> bool \<times> AuthStore" where
  "enableBiometrics enabled st =
     (case secureData st of
        None \<Rightarrow> (False, st)
      | Some currentData \<Rightarrow>
          (True, st\<lparr>secureData := Some (currentData\<lparr>biometricEnabled := enabled\<rparr>)\<rparr>))"

definition completeSetup :: "AuthStore \<Rightarrow> bool \<times> AuthStore" where
  "completeSetup st =
     (case secureData st of
        None \<Rightarrow> (False, st)
      | Some currentData \<Rightarrow>
          (True, st\<lparr>secureData := Some (currentData\<lparr>setupComplete := True\<rparr>),
                   appState := VAULT_LOCKED\<rparr>))"

datatype UnlockResult = Success | Duress | Failed

definition unlockVault ::
  "hashPin \<Rightarrow> cryptojs \<Rightarrow> string \<Rightarrow> AuthStore \<Rightarrow> UnlockResult \<times> AuthStore" where
  "unlockVault H L pin st =
     (case secureData st of
        None \<Rightarrow> (Failed, st)
      | Some sd \<Rightarrow>
          if verifyPin H pin (duressSalt sd) (duressHash sd)
          then (Duress, st\<lparr>appState := DURESS_MODE, masterKey := None\<rparr>)
          else if verifyPin H pin (pinSalt sd) (pinHash sd)
          then (Success, st\<lparr>appState := VAULT_UNLOCKED,
                            masterKey := Some (deriveMasterKey L pin (masterKeySalt sd))\<rparr>)
          else (Failed, st))"

definition lockVault :: "AuthStore \<Rightarrow> AuthStore" where
  "lockVault st = st\<lparr>appState := VAULT_LOCKED, masterKey := None\<rparr>"

text \<open>
  \<open>addDocument\<close>, \<open>removeDocument\<close>: \<open>saveVaultMetadata\<close> catches its own errors and
  its result is ignored, so the store is set either way.
\<close>

definition addDocument :: "VaultDocument \<Rightarrow> nat \<Rightarrow> AuthStore \<Rightarrow> AuthStore" where
  "addDocument doc now st =
     (case vaultMetadata st of
        None \<Rightarrow> st
      | Some m \<Rightarrow>
          if appState st = DURESS_MODE
          then st\<lparr>vaultMetadata :=
                    Some (m\<lparr>decoyDocuments := decoyDocuments m @ [doc], lastUpdated := now\<rparr>)\<rparr>
          else st\<lparr>vaultMetadata :=
                    Some (m\<lparr>documents := documents m @ [doc], lastUpdated := now\<rparr>)\<rparr>)"

definition removeDocument :: "string \<Rightarrow> nat \<Rightarrow> AuthStore \<Rightarrow> AuthStore" where
  "removeDocument docId now st =
     (case vaultMetadata st of
        None \<Rightarrow> st
      | Some m \<Rightarrow>
          if appState st = DURESS_MODE
          then st\<lparr>vaultMetadata :=
                    Some (m\<lparr>decoyDocuments := filter (\<lambda>d. doc_id d \<noteq> docId) (decoyDocuments m),
                            lastUpdated := now\<rparr>)\<rparr>
          else st\<lparr>vaultMetadata :=
                    Some (m\<lparr>documents := filter (\<lambda>d. doc_id d \<noteq> docId) (documents m),
                            lastUpdated := now\<rparr>)\<rparr>)"

definition getDocuments :: "AuthStore \<Rightarrow> VaultDocument list" where
  "getDocuments st =
     (case vaultMetadata st of
        None \<Rightarrow> []
      | Some m \<Rightarrow> if appState st = DURESS_MODE then decoyDocuments m else documents m)"

definition setError :: "string option \<Rightarrow> AuthStore \<Rightarrow> AuthStore" where
  "setError e st = st\<lparr>error := e\<rparr>"

definition clearError :: "AuthStore \<Rightarrow> AuthStore" where
  "clearError st = st\<lparr>error := None\<rparr>"

definition isSetupComplete :: "AuthStore \<Rightarrow> bool" where
  "isSetupComplete st = (case secureData st of None \<Rightarrow> False | Some d \<Rightarrow> setupComplete d)"

subsection \<open>Sequences of store actions\<close>

text \<open>One constructor per store action, with the inputs the action receives.\<close>

datatype action =
    Initialize "User option outcome" "SecureLocalData option" "LocalVaultMetadata option" nat
  | SignIn "AuthResult outcome" "SecureLocalData option" "LocalVaultMetadata option" nat
  | SignUp "AuthResult outcome" nat
  | SignOut "unit outcome"
  | SetupPins "rng outcome" string string
  | EnableBiometrics bool
  | CompleteSetup
  | UnlockVault string
  | LockVault
  | AddDocument VaultDocument nat
  | RemoveDocument string nat

fun dispatch :: "generatePinSalt \<Rightarrow> hashPin \<Rightarrow> cryptojs \<Rightarrow> AuthStore \<Rightarrow> action \<Rightarrow> AuthStore" where
  "dispatch G H L st (Initialize session sd md now) = initialize session sd md now st"
| "dispatch G H L st (SignIn res sd md now) = snd (signIn res sd md now st)"
| "dispatch G H L st (SignUp res now) = snd (signUp res now st)"
| "dispatch G H L st (SignOut res) = snd (signOut res st)"
| "dispatch G H L st (SetupPins rnd primaryPin duressPin) = snd (setupPins G H rnd primaryPin duressPin st)"
| "dispatch G H L st (EnableBiometrics enabled) = snd (enableBiometrics enabled st)"
| "dispatch G H L st CompleteSetup = snd (completeSetup st)"
| "dispatch G H L st (UnlockVault pin) = snd (unlockVault H L pin st)"
| "dispatch G H L st LockVault = lockVault st"
| "dispatch G H L st (AddDocument doc now) = addDocument doc now st"
| "dispatch G H L st (RemoveDocument docId now) = removeDocument docId now st"

definition run :: "generatePinSalt \<Rightarrow> hashPin \<Rightarrow> cryptojs \<Rightarrow> action list \<Rightarrow> AuthStore" where
  "run G H L acts = foldl (dispatch G H L) initialStore acts"

text \<open>
  The actions that set the session state from a session, a sign-in or a finished setup
  and leave the \<open>masterKey\<close> field as it is. A sequence of actions is \<open>keyFreeResets\<close>
  from a store when each of them is dispatched on a store that holds no master key.
\<close>

fun resetsSession :: "action \<Rightarrow> bool" where
  "resetsSession (Initialize session sd md now) = True"
| "resetsSession (SignIn res sd md now) = True"
| "resetsSession (SignUp res now) = True"
| "resetsSession CompleteSetup = True"
| "resetsSession a = False"

fun keyFreeResets ::
  "generatePinSalt \<Rightarrow> hashPin \<Rightarrow> cryptojs \<Rightarrow> AuthStore \<Rightarrow> action list \<Rightarrow> bool" where
  "keyFreeResets G H L st [] = True"
| "keyFreeResets G H L st (a # acts) =
     ((resetsSession a \<longrightarrow> masterKey st = None) \<and> keyFreeResets G H L (dispatch G H L st a) acts)"


text \<open>What the store keeps true of the master key along every run.\<close>

definition keyInv :: "AuthStore \<Rightarrow> bool" where
  "keyInv st = ((appState st = VAULT_UNLOCKED \<longrightarrow> masterKey st \<noteq> None)
              \<and> (appState st = DURESS_MODE \<longrightarrow> masterKey st = None))"

text \<open>The master key is held exactly in \<open>VAULT_UNLOCKED\<close>.\<close>

definition keyIff :: "AuthStore \<Rightarrow> bool" where
  "keyIff st = ((masterKey st \<noteq> None) = (appState st = VAULT_UNLOCKED))"

text \<open>Observers of the two document collections of the store.\<close>

definition realDocs :: "AuthStore \<Rightarrow> VaultDocument list option" where
  "realDocs st = map_option documents (vaultMetadata st)"

definition decoyDocs :: "AuthStore \<Rightarrow> VaultDocument list option" where
  "decoyDocs st = map_option decoyDocuments (vaultMetadata st)"

subsection \<open>Base64 encoding (\<open>CryptoJS.enc.Base64\<close>)\<close>

text \<open>
  The encoder of crypto-js 4: \<open>stringify\<close> emits four characters for every three bytes,
  fewer for the last one or two bytes, and pads with \<open>=\<close> to a multiple of four;
  \<open>parse\<close> cuts the string at the first \<open>=\<close> and, for every character at a position
  \<open>i\<close> with \<open>i % 4 \<noteq> 0\<close>, builds one byte from the characters at \<open>i - 1\<close> and \<open>i\<close>.
  A character outside the alphabet has no entry in the reverse map and counts as 0
  under the shifts.
\<close>

unbundle bit_operations_syntax

definition base64Map :: string where
  "base64Map = ''ABCDEFGHIJKLMNOPQRSTUVWXYZabcdefghijklmnopqrstuvwxyz0123456789+/=''"

definition triplet :: "byte \<Rightarrow> byte \<Rightarrow> byte \<Rightarrow> nat" where
  "triplet byte1 byte2 byte3 = push_bit 16 (unat byte1) OR push_bit 8 (unat byte2) OR unat byte3"

definition base64Char :: "nat \<Rightarrow> nat \<Rightarrow> char" where
  "base64Char tr j = base64Map ! (drop_bit (6 * (3 - j)) tr AND 63)"

fun base64Chars :: "bytes \<Rightarrow> string" where
  "base64Chars (b1 # b2 # b3 # bs) = map (base64Char (triplet b1 b2 b3)) [0, 1, 2, 3] @ base64Chars bs"
| "base64Chars [b1, b2] = map (base64Char (triplet b1 b2 0)) [0, 1, 2]"
| "base64Chars [b1] = map (base64Char (triplet b1 0 0)) [0, 1]"
| "base64Chars [] = []"

definition Base64_stringify :: "bytes \<Rightarrow> string" where
  "Base64_stringify wordArray =
     (let cs = base64Chars wordArray in cs @ replicate ((4 - length cs mod 4) mod 4) (CHR ''=''))"

definition reverseMap :: "char \<Rightarrow> nat" where
  "reverseMap c =
     (let j = length (takeWhile (\<lambda>x. x \<noteq> c) base64Map) in if j < length base64Map then j else 0)"

text \<open>
  \<open>bitsCombined i prev c\<close>: the byte built at position \<open>i\<close> from the character \<open>prev\<close> at
  \<open>i - 1\<close> and the character \<open>c\<close> at \<open>i\<close>, as it lands in the word array (its low eight
  bits; the bits above them repeat the low bits of the byte before).
\<close>

definition bitsCombined :: "nat \<Rightarrow> char \<Rightarrow> char \<Rightarrow> byte" where
  "bitsCombined i prev c =
     of_nat (push_bit ((i mod 4) * 2) (reverseMap prev) OR drop_bit (6 - (i mod 4) * 2) (reverseMap c))"

fun parseLoop :: "nat \<Rightarrow> char \<Rightarrow> string \<Rightarrow> bytes" where
  "parseLoop i prev [] = []"
| "parseLoop i prev (c # cs) =
     (if i mod 4 \<noteq> 0 then [bitsCombined i prev c] else []) @ parseLoop (i + 1) c cs"

definition Base64_parse :: "string \<Rightarrow> bytes" where
  "Base64_parse base64Str =
     parseLoop 0 (CHR ''='') (takeWhile (\<lambda>c. c \<noteq> CHR ''='') base64Str)"

subsection \<open>crypto/encryption.ts\<close>

text \<open>\<open>String.prototype.split\<close> with a one-character separator.\<close>

primrec split_on :: "char \<Rightarrow> string \<Rightarrow> string list" where
  "split_on sep [] = [[]]"
| "split_on sep (c # cs) =
     (if c = sep then [] # split_on sep cs
      else (case split_on sep cs of p # ps \<Rightarrow> (c # p) # ps | [] \<Rightarrow> [[c]]))"

definition encryptAES256 :: "cryptojs \<Rightarrow> string \<Rightarrow> string \<Rightarrow> string \<Rightarrow> string" where
  "encryptAES256 L data keyHex ivHex =
     (let key = Hex_parse L keyHex;
          iv = Hex_parse L ivHex;
          ciphertext = AES_encrypt L data key iv;
          hmac = HmacSHA256 L (Hex_stringify ciphertext) key
      in Base64_stringify ciphertext @ ''|'' @ Hex_stringify hmac)"

text \<open>
  \<open>decryptAES256\<close>: \<open>None\<close> is \<open>null\<close>. Destructuring the split takes its first two
  parts; the second is \<open>undefined\<close> (here \<open>None\<close>) when there is no separator. The only
  call of the \<open>try\<close> block that throws is the UTF-8 conversion.
\<close>

definition decryptAES256 :: "cryptojs \<Rightarrow> string \<Rightarrow> string \<Rightarrow> string \<Rightarrow> string option" where
  "decryptAES256 L encryptedWithHmac keyHex ivHex =
     (case split_on (CHR ''|'') encryptedWithHmac of
        [] \<Rightarrow> None
      | encryptedBase64 # rest \<Rightarrow>
          (let storedHmac = (case rest of [] \<Rightarrow> None | h # _ \<Rightarrow> Some h);
               key = Hex_parse L keyHex;
               iv = Hex_parse L ivHex;
               ciphertext = Base64_parse encryptedBase64;
               computedHmac = HmacSHA256 L (Hex_stringify ciphertext) key
           in if Some (Hex_stringify computedHmac) \<noteq> storedHmac then None
              else (case Utf8_stringify L (AES_decrypt L ciphertext key iv) of
                      Throws \<Rightarrow> None
                    | Returns decrypted \<Rightarrow> Some decrypted)))"

record DocumentEncryptionResult =
  encryptedData :: string
  encryptedFEK :: string
  fekIV :: string
  dataIV :: string

definition encryptDocument :: "cryptojs \<Rightarrow> rng \<Rightarrow> string \<Rightarrow> string \<Rightarrow> DocumentEncryptionResult" where
  "encryptDocument L t documentBase64 mk =
     (let (fek, t1) = generateFEK t;
          (dataIV', t2) = generateIV t1;
          (fekIV', t3) = generateIV t2;
          encryptedData' = encryptAES256 L documentBase64 fek dataIV';
          encryptedFEK' = encryptAES256 L fek mk fekIV'
      in \<lparr>encryptedData = encryptedData', encryptedFEK = encryptedFEK',
          fekIV = fekIV', dataIV = dataIV'\<rparr>)"

text \<open>\<open>decryptDocument\<close>: \<open>!fek\<close> holds for \<open>null\<close> and for the empty string.\<close>

definition decryptDocument ::
  "cryptojs \<Rightarrow> string \<Rightarrow> string \<Rightarrow> string \<Rightarrow> string \<Rightarrow> string \<Rightarrow> string option" where
  "decryptDocument L encryptedData' encryptedFEK' fekIV' dataIV' mk =
     (case decryptAES256 L encryptedFEK' mk fekIV' of
        None \<Rightarrow> None
      | Some fek \<Rightarrow> if fek = [] then None else decryptAES256 L encryptedData' fek dataIV')"

text \<open>
  Observers of a sealed value \<open>base64|hmac\<close> and of the cipher: the ciphertext that
  \<open>encryptAES256\<close> seals, whether a string passes the HMAC check of \<open>decryptAES256\<close>
  under a key, and whether decryption inverts encryption at a message, key and IV.
\<close>

definition sealedCipher :: "cryptojs \<Rightarrow> string \<Rightarrow> string \<Rightarrow> string \<Rightarrow> bytes" where
  "sealedCipher L data keyHex ivHex = AES_encrypt L data (Hex_parse L keyHex) (Hex_parse L ivHex)"

definition verifies :: "cryptojs \<Rightarrow> string \<Rightarrow> string \<Rightarrow> bool" where
  "verifies L s keyHex =
     (case split_on (CHR ''|'') s of
        b # h # _ \<Rightarrow>
          Hex_stringify (HmacSHA256 L (Hex_stringify (Base64_parse b)) (Hex_parse L keyHex)) = h
      | _ \<Rightarrow> False)"

definition aes_inverts :: "cryptojs \<Rightarrow> string \<Rightarrow> string \<Rightarrow> string \<Rightarrow> bool" where
  "aes_inverts L data keyHex ivHex =
     (Utf8_stringify L
        (AES_decrypt L (AES_encrypt L data (Hex_parse L keyHex) (Hex_parse L ivHex))
           (Hex_parse L keyHex) (Hex_parse L ivHex))
      = Returns data)"




subsection \<open>crypto/sharding.ts\<close>

text \<open>
  The \<open>Shard\<close> type is imported by \<open>storageService.ts\<close> and \<open>vaultService.ts\<close>, which read
  its fields \<open>id\<close>, \<open>data\<close> and \<open>index\<close>.
\<close>

record Shard =
  shard_id :: string
  shard_data :: string
  shard_index :: nat

definition NUM_SHARDS :: nat where
  "NUM_SHARDS = 3"

text \<open>
  Modelled from the spec: \<open>splitIntoShards\<close> of the absent \<open>crypto/sharding.ts\<close>. The spec
  splits the sealed payload into a fixed number of shards (three in the reference
  behaviour), in order, and gives each shard a randomly generated identifier unrelated to
  the document, to its siblings and to its position; the position is kept in \<open>index\<close>.
  Here the three pieces are consecutive chunks of \<open>ceil(length / 3)\<close> characters and the
  identifiers are consecutive 16-byte draws of the random generator.
\<close>

definition splitIntoShards :: "rng \<Rightarrow> string \<Rightarrow> Shard list" where
  "splitIntoShards t payload =
     (let chunkSize = (length payload + NUM_SHARDS - 1) div NUM_SHARDS in
      map (\<lambda>i. \<lparr>shard_id = Hex_stringify (map t [16 * i..<16 * i + 16]),
                shard_data = take chunkSize (drop (i * chunkSize) payload),
                shard_index = i\<rparr>)
        [0..<NUM_SHARDS])"

datatype ReassembleError = IncompleteFragmentSet

text \<open>
  Modelled from the spec: \<open>reassembleShards\<close> of the absent \<open>crypto/sharding.ts\<close>. The spec
  has it sort its inputs by the caller-supplied \<open>index\<close> (never by identifier or arrival
  order) before concatenation, and fail with a distinct "incomplete" error when fewer
  shards than expected are supplied.
\<close>

definition reassembleShards :: "Shard list \<Rightarrow> ReassembleError + string" where
  "reassembleShards shards =
     (if length shards < NUM_SHARDS then Inl IncompleteFragmentSet
      else Inr (concat (map shard_data (sort_key shard_index shards))))"

subsection \<open>services/vault/storageService.ts\<close>

text \<open>
  The blob store maps a path to the content stored under it. What the store answers to an
  upload and to a removal is an input: an upload that is answered with an error, or that
  throws, stores nothing; a removal that is answered with an error, or that throws,
  removes nothing.
\<close>

type_synonym blobstore = "string \<rightharpoonup> string"

datatype upload_response = UploadOk | UploadError string | UploadThrows "string option"

datatype remove_response = RemoveOk | RemoveError string | RemoveThrows

definition filePath :: "string \<Rightarrow> string \<Rightarrow> string" where
  "filePath userId shardId = userId @ ''/'' @ shardId"

text \<open>\<open>uploadShard\<close>: \<open>Inr shard.id\<close> is \<open>{success: true, shardId}\<close>, \<open>Inl e\<close> is \<open>{success: false, error: e}\<close>.\<close>

definition uploadShard ::
  "upload_response \<Rightarrow> Shard \<Rightarrow> string \<Rightarrow> blobstore \<Rightarrow> (string + string) \<times> blobstore" where
  "uploadShard resp shard userId store =
     (case resp of
        UploadOk \<Rightarrow> (Inr (shard_id shard), store(filePath userId (shard_id shard) \<mapsto> shard_data shard))
      | UploadError message \<Rightarrow> (Inl message, store)
      | UploadThrows message \<Rightarrow> (Inl (orElse message ''Upload failed''), store))"

definition cleanupShards :: "remove_response \<Rightarrow> string list \<Rightarrow> string \<Rightarrow> blobstore \<Rightarrow> blobstore" where
  "cleanupShards resp shardIds userId store =
     (case resp of
        RemoveOk \<Rightarrow> store |` (- set (map (filePath userId) shardIds))
      | RemoveError message \<Rightarrow> store
      | RemoveThrows \<Rightarrow> store)"

fun showNat :: "nat \<Rightarrow> string" where
  "showNat n =
     (if n < 10 then [''0123456789'' ! n] else showNat (n div 10) @ [''0123456789'' ! (n mod 10)])"

declare showNat.simps [simp del]

text \<open>
  The loop of \<open>uploadAllShards\<close>: \<open>up i\<close> is the store's answer to the upload of
  \<open>shards[i]\<close>, \<open>rm\<close> its answer to the removal that \<open>cleanupShards\<close> requests. The
  progress callback does not touch the store and is left out.
\<close>

fun uploadLoop ::
  "(nat \<Rightarrow> upload_response) \<Rightarrow> remove_response \<Rightarrow> string \<Rightarrow> nat \<Rightarrow> nat \<Rightarrow> string list \<Rightarrow>
   Shard list \<Rightarrow> blobstore \<Rightarrow> (string + string list) \<times> blobstore" where
  "uploadLoop up rm userId n i shardIds [] store = (Inr shardIds, store)"
| "uploadLoop up rm userId n i shardIds (shard # rest) store =
     (case uploadShard (up i) shard userId store of
        (Inl e, store1) \<Rightarrow>
          (Inl (''Shard '' @ showNat (i + 1) @ ''/'' @ showNat n @ '' failed: '' @ e),
           cleanupShards rm shardIds userId store1)
      | (Inr shardId, store1) \<Rightarrow>
          uploadLoop up rm userId n (i + 1) (shardIds @ [shardId]) rest store1)"

definition uploadAllShards ::
  "(nat \<Rightarrow> upload_response) \<Rightarrow> remove_response \<Rightarrow> Shard list \<Rightarrow> string \<Rightarrow> blobstore \<Rightarrow>
   (string + string list) \<times> blobstore" where
  "uploadAllShards up rm shards userId store =
     uploadLoop up rm userId (length shards) 0 [] shards store"

subsection \<open>An executable instance of the parameters\<close>

text \<open>
  Small executable stand-ins for the primitives, used only to evaluate the model on
  concrete inputs: a hash that keeps salt and PIN readable, a one-byte XOR cipher with
  PKCS7 padding, and a one-byte checksum in place of the keyed hash.
\<close>

definition ex_hashPin :: hashPin where
  "ex_hashPin pin salt = salt @ ''$'' @ pin"

definition hexVal :: "char \<Rightarrow> nat" where
  "hexVal c = (let n = of_char c in
     if 48 \<le> n \<and> n \<le> 57 then n - 48
     else if 97 \<le> n \<and> n \<le> 102 then n - 87
     else if 65 \<le> n \<and> n \<le> 70 then n - 55 else 0)"

fun ex_Hex_parse :: "string \<Rightarrow> bytes" where
  "ex_Hex_parse (a # b # cs) = of_nat (hexVal a * 16 + hexVal b) # ex_Hex_parse cs"
| "ex_Hex_parse _ = []"

definition ex_PBKDF2 :: "string \<Rightarrow> bytes \<Rightarrow> nat \<Rightarrow> nat \<Rightarrow> bytes" where
  "ex_PBKDF2 password salt keySize iterations =
     take (4 * keySize) (map of_char password @ salt @ replicate (4 * keySize) 0)"

definition keyByte :: "bytes \<Rightarrow> byte" where
  "keyByte ks = foldr (XOR) ks 0"

definition pkcs7_pad :: "bytes \<Rightarrow> bytes" where
  "pkcs7_pad bs = (let n = 16 - length bs mod 16 in bs @ replicate n (of_nat n))"

definition pkcs7_unpad :: "bytes \<Rightarrow> bytes" where
  "pkcs7_unpad bs = (if bs = [] then [] else take (length bs - unat (last bs)) bs)"

definition ex_AES_encrypt :: "string \<Rightarrow> bytes \<Rightarrow> bytes \<Rightarrow> bytes" where
  "ex_AES_encrypt data key iv = map (\<lambda>b. b XOR keyByte (key @ iv)) (pkcs7_pad (map of_char data))"

definition ex_AES_decrypt :: "bytes \<Rightarrow> bytes \<Rightarrow> bytes \<Rightarrow> bytes" where
  "ex_AES_decrypt c key iv = pkcs7_unpad (map (\<lambda>b. b XOR keyByte (key @ iv)) c)"

definition ex_Utf8_stringify :: "bytes \<Rightarrow> string outcome" where
  "ex_Utf8_stringify bs =
     (if list_all (\<lambda>b. unat b < 128) bs then Returns (map (\<lambda>b. char_of (unat b)) bs) else Throws)"

definition ex_HmacSHA256 :: "string \<Rightarrow> bytes \<Rightarrow> bytes" where
  "ex_HmacSHA256 message key =
     keyByte (key @ map of_char message) # of_nat (length message) # replicate 30 0"

definition ex_cryptojs :: cryptojs where
  "ex_cryptojs =
     \<lparr>Hex_parse = ex_Hex_parse, PBKDF2 = ex_PBKDF2, AES_encrypt = ex_AES_encrypt,
      AES_decrypt = ex_AES_decrypt, Utf8_stringify = ex_Utf8_stringify,
      HmacSHA256 = ex_HmacSHA256\<rparr>"

definition ex_rng :: rng where
  "ex_rng i = of_nat (7 * i + 3)"

definition ex_user :: User where
  "ex_user = \<lparr>user_id = ''u1'', email = ''a@b.c''\<rparr>"

definition ex_generatePinSalt :: generatePinSalt where
  "ex_generatePinSalt t = generateRandomBytes SALT_SIZE t"

definition ex_secureData :: "string \<Rightarrow> string \<Rightarrow> SecureLocalData" where
  "ex_secureData primaryPin duressPin =
     (newSecureData ex_generatePinSalt ex_hashPin ex_rng primaryPin duressPin initialStore)
       \<lparr>setupComplete := True\<rparr>"

definition ex_doc :: "string \<Rightarrow> VaultDocument" where
  "ex_doc i =
     \<lparr>doc_id = i, doc_name = ''n'', doc_type = pdf, mimeType = ''application/pdf'', doc_size = 1,
      createdAt = 0, doc_shardIds = [], doc_encryptedFEK = [], doc_iv = []\<rparr>"

definition ex_authResult :: AuthResult where
  "ex_authResult = \<lparr>success_r = True, user_r = Some ex_user, error_r = None\<rparr>"

definition ex_metadata :: LocalVaultMetadata where
  "ex_metadata = \<lparr>documents = [ex_doc ''r1''], decoyDocuments = [ex_doc ''d1''], lastUpdated = 0\<rparr>"

text \<open>The sign-in that finds the Credential Record of a finished setup, and the store after it.\<close>

definition ex_signIn :: "string \<Rightarrow> string \<Rightarrow> action" where
  "ex_signIn primaryPin duressPin =
     SignIn (Returns ex_authResult) (Some (ex_secureData primaryPin duressPin)) (Some ex_metadata) 0"

definition ex_locked :: "string \<Rightarrow> string \<Rightarrow> AuthStore" where
  "ex_locked primaryPin duressPin =
     dispatch ex_generatePinSalt ex_hashPin ex_cryptojs initialStore (ex_signIn primaryPin duressPin)"

definition ex_shards :: "Shard list" where
  "ex_shards =
     [\<lparr>shard_id = ''s0'', shard_data = ''abc'', shard_index = 0\<rparr>,
      \<lparr>shard_id = ''s1'', shard_data = ''def'', shard_index = 1\<rparr>,
      \<lparr>shard_id = ''s2'', shard_data = ''gh'', shard_index = 2\<rparr>]"

text \<open>The store's answers when the second upload is forced to fail.\<close>

definition ex_secondFails :: "nat \<Rightarrow> upload_response" where
  "ex_secondFails i = (if i = 1 then UploadError ''network'' else UploadOk)"

definition ex_masterKey :: string where
  "ex_masterKey = ''000102030405060708090a0b0c0d0e0f101112131415161718191a1b1c1d1e1f''"

definition ex_encrypted :: DocumentEncryptionResult where
  "ex_encrypted = encryptDocument ex_cryptojs ex_rng ''SGVsbG8='' ex_masterKey"
section \<open>Encodings\<close>

subsection \<open>Base64: parsing inverts stringifying\<close>

lemma and_63: "(n::nat) AND 63 = take_bit 6 n"
proof -
  have "(63::nat) = mask 6" by (simp add: mask_eq_exp_minus_1)
  then show ?thesis by (simp only: take_bit_eq_mask)
qed

lemma byte_high_bit: "8 \<le> n \<Longrightarrow> \<not> bit (w :: byte) n"
  by (auto dest: bit_imp_le_length)

lemma lt8_cases:
  fixes m :: nat
  assumes "m < 8"
  shows "m = 0 \<or> m = 1 \<or> m = 2 \<or> m = 3 \<or> m = 4 \<or> m = 5 \<or> m = 6 \<or> m = 7"
  using assms by arith

lemma reverseMap_all: "\<forall>k \<in> set [0..<64]. reverseMap (base64Map ! k) = k"
  by (simp add: reverseMap_def base64Map_def upt_rec)

lemma sextet_less: "(n::nat) AND 63 < 64"
  using take_bit_nat_less_exp [of 6 n] by (simp add: and_63)

lemma reverseMap_base64Char:
  "reverseMap (base64Char tr j) = drop_bit (6 * (3 - j)) tr AND 63"
  using reverseMap_all sextet_less [of "drop_bit (6 * (3 - j)) tr"]
  by (simp add: base64Char_def)

lemma bits1:
  assumes "i mod 4 = 1"
  shows "bitsCombined i (base64Char (triplet a b c) 0) (base64Char (triplet a b c) 1) = a"
  unfolding bitsCombined_def reverseMap_base64Char
proof (rule bit_word_eqI)
  fix n assume "n < LENGTH(8)"
  then have "n < 8" by simp
  from lt8_cases [OF this] show "bit (of_nat (push_bit (i mod 4 * 2) (drop_bit (6 * (3 - 0)) (triplet a b c) AND 63)
      OR drop_bit (6 - i mod 4 * 2) (drop_bit (6 * (3 - 1)) (triplet a b c) AND 63)) :: byte) n = bit a n"
    using assms by (elim disjE) (simp_all add: and_63 triplet_def bit_simps byte_high_bit)
qed

lemma bits2:
  assumes "i mod 4 = 2"
  shows "bitsCombined i (base64Char (triplet a b c) 1) (base64Char (triplet a b c) 2) = b"
  unfolding bitsCombined_def reverseMap_base64Char
proof (rule bit_word_eqI)
  fix n assume "n < LENGTH(8)"
  then have "n < 8" by simp
  from lt8_cases [OF this] show "bit (of_nat (push_bit (i mod 4 * 2) (drop_bit (6 * (3 - 1)) (triplet a b c) AND 63)
      OR drop_bit (6 - i mod 4 * 2) (drop_bit (6 * (3 - 2)) (triplet a b c) AND 63)) :: byte) n = bit b n"
    using assms by (elim disjE) (simp_all add: and_63 triplet_def bit_simps byte_high_bit)
qed

lemma bits3:
  assumes "i mod 4 = 3"
  shows "bitsCombined i (base64Char (triplet a b c) 2) (base64Char (triplet a b c) 3) = c"
  unfolding bitsCombined_def reverseMap_base64Char
proof (rule bit_word_eqI)
  fix n assume "n < LENGTH(8)"
  then have "n < 8" by simp
  from lt8_cases [OF this] show "bit (of_nat (push_bit (i mod 4 * 2) (drop_bit (6 * (3 - 2)) (triplet a b c) AND 63)
      OR drop_bit (6 - i mod 4 * 2) (drop_bit (6 * (3 - 3)) (triplet a b c) AND 63)) :: byte) n = bit c n"
    using assms by (elim disjE) (simp_all add: and_63 triplet_def bit_simps byte_high_bit)
qed

lemma base64Char_alphabet: "base64Char tr j \<in> set (take 64 base64Map)"
proof -
  have "(k::nat) AND 63 < length (take 64 base64Map)" for k
    using sextet_less [of k] by (simp add: base64Map_def)
  then have "take 64 base64Map ! (k AND 63) \<in> set (take 64 base64Map)" for k :: nat
    by (rule nth_mem)
  then show ?thesis using sextet_less by (simp add: base64Char_def)
qed

lemma alphabet_chars:
  "c \<in> set (take 64 base64Map) \<Longrightarrow> c \<noteq> CHR ''='' \<and> c \<noteq> CHR ''|''"
  by (auto simp: base64Map_def)

lemma base64Chars_alphabet: "c \<in> set (base64Chars bs) \<Longrightarrow> c \<in> set (take 64 base64Map)"
  by (induction bs rule: base64Chars.induct) (auto simp: base64Char_alphabet)

lemma mod4_steps:
  "i mod 4 = 0 \<Longrightarrow> Suc i mod 4 = 1 \<and> Suc (Suc i) mod 4 = 2 \<and> Suc (Suc (Suc i)) mod 4 = 3
     \<and> Suc (Suc (Suc (Suc i))) mod 4 = 0"
  by presburger

lemma parseLoop_base64Chars: "i mod 4 = 0 \<Longrightarrow> parseLoop i p (base64Chars bs) = bs"
proof (induction bs arbitrary: i p rule: base64Chars.induct)
  case (1 b1 b2 b3 bs)
  let ?T = "triplet b1 b2 b3"
  from mod4_steps [OF "1.prems"] have m: "Suc i mod 4 = 1" "Suc (Suc i) mod 4 = 2"
    "Suc (Suc (Suc i)) mod 4 = 3" "Suc (Suc (Suc (Suc i))) mod 4 = 0" by simp_all
  have "bitsCombined (Suc i) (base64Char ?T 0) (base64Char ?T 1) = b1"
    "bitsCombined (Suc (Suc i)) (base64Char ?T 1) (base64Char ?T 2) = b2"
    "bitsCombined (Suc (Suc (Suc i))) (base64Char ?T 2) (base64Char ?T 3) = b3"
    using m by (simp_all only: bits1 bits2 bits3)
  with "1.IH" [OF m(4)] "1.prems" m show ?case
    by simp
next
  case (2 b1 b2)
  let ?T = "triplet b1 b2 0"
  from mod4_steps [OF "2.prems"] have m: "Suc i mod 4 = 1" "Suc (Suc i) mod 4 = 2" by simp_all
  have "bitsCombined (Suc i) (base64Char ?T 0) (base64Char ?T 1) = b1"
    "bitsCombined (Suc (Suc i)) (base64Char ?T 1) (base64Char ?T 2) = b2"
    using m by (simp_all only: bits1 bits2)
  with "2.prems" m show ?case
    by simp
next
  case (3 b1)
  let ?T = "triplet b1 0 0"
  from mod4_steps [OF "3.prems"] have m: "Suc i mod 4 = 1" by simp
  have "bitsCombined (Suc i) (base64Char ?T 0) (base64Char ?T 1) = b1"
    using m by (simp only: bits1)
  with "3.prems" m show ?case
    by simp
next
  case 4
  show ?case by simp
qed

lemma base64Field_stringify:
  "takeWhile (\<lambda>c. c \<noteq> CHR ''='') (Base64_stringify bs) = base64Chars bs"
proof -
  have 1: "\<And>c. c \<in> set (base64Chars bs) \<Longrightarrow> c \<noteq> CHR ''=''"
    using base64Chars_alphabet alphabet_chars by blast
  have 2: "takeWhile (\<lambda>c. c \<noteq> CHR ''='') (replicate k (CHR ''='')) = []" for k
    by (cases k) simp_all
  show ?thesis
    unfolding Base64_stringify_def Let_def using 1 by (simp add: takeWhile_append2 2)
qed

lemma Base64_roundtrip: "Base64_parse (Base64_stringify bs) = bs"
  by (simp add: Base64_parse_def base64Field_stringify parseLoop_base64Chars)

lemma Base64_stringify_no_bar: "CHR ''|'' \<notin> set (Base64_stringify bs)"
proof -
  have "CHR ''|'' \<notin> set (base64Chars bs)"
    using base64Chars_alphabet alphabet_chars by blast
  then show ?thesis by (simp add: Base64_stringify_def Let_def)
qed

subsection \<open>Hex strings\<close>

lemma hexDigit_no_bar: "hexDigit n \<noteq> CHR ''|''"
proof -
  have "n mod 16 < length ''0123456789abcdef''" by simp
  then have "''0123456789abcdef'' ! (n mod 16) \<in> set ''0123456789abcdef''"
    by (rule nth_mem)
  then show ?thesis unfolding hexDigit_def by auto
qed

lemma Hex_stringify_no_bar: "CHR ''|'' \<notin> set (Hex_stringify bs)"
  by (induction bs) (simp_all add: Hex_stringify_def hexByte_def hexDigit_no_bar [symmetric])

lemma length_Hex_stringify: "length (Hex_stringify bs) = 2 * length bs"
  by (induction bs) (simp_all add: Hex_stringify_def hexByte_def)

subsection \<open>Splitting at the separator\<close>

lemma split_on_nonempty: "split_on sep s \<noteq> []"
  by (induction s) (auto split: list.splits)

lemma split_on_none: "sep \<notin> set s \<Longrightarrow> split_on sep s = [s]"
  by (induction s) auto

lemma split_on_first: "sep \<notin> set a \<Longrightarrow> split_on sep (a @ sep # b) = a # split_on sep b"
  by (induction a) auto

section \<open>Sealed values and the document envelope\<close>

subsection \<open>One sealed layer\<close>

lemma hd_split_on: "hd (split_on sep s) = takeWhile (\<lambda>c. c \<noteq> sep) s"
  by (induction s) (auto split: list.splits simp: split_on_nonempty)

lemma takeWhile_sep: "sep \<notin> set a \<Longrightarrow> takeWhile (\<lambda>c. c \<noteq> sep) (a @ sep # b) = a"
  by (induction a) auto


lemma encryptAES256_form:
  "encryptAES256 L data keyHex ivHex =
     Base64_stringify (sealedCipher L data keyHex ivHex) @ CHR ''|''
       # Hex_stringify (HmacSHA256 L (Hex_stringify (sealedCipher L data keyHex ivHex)) (Hex_parse L keyHex))"
  by (simp add: encryptAES256_def sealedCipher_def Let_def)


lemma decryptAES256_verified:
  assumes "verifies L s keyHex"
  shows "decryptAES256 L s keyHex ivHex =
     (case Utf8_stringify L
             (AES_decrypt L (Base64_parse (takeWhile (\<lambda>c. c \<noteq> CHR ''|'') s))
                (Hex_parse L keyHex) (Hex_parse L ivHex)) of
        Throws \<Rightarrow> None | Returns decrypted \<Rightarrow> Some decrypted)"
proof -
  from assms obtain b h rest where sp: "split_on (CHR ''|'') s = b # h # rest"
    and tag: "Hex_stringify (HmacSHA256 L (Hex_stringify (Base64_parse b)) (Hex_parse L keyHex)) = h"
    by (auto simp: verifies_def split: list.splits)
  from sp hd_split_on [of "CHR ''|''" s] have "b = takeWhile (\<lambda>c. c \<noteq> CHR ''|'') s" by simp
  with sp tag show ?thesis by (simp add: decryptAES256_def Let_def)
qed

lemma verifies_sealed_with:
  assumes "CHR ''|'' \<notin> set b" and "CHR ''|'' \<notin> set h"
  shows "verifies L (b @ CHR ''|'' # h) keyHex
     \<longleftrightarrow> Hex_stringify (HmacSHA256 L (Hex_stringify (Base64_parse b)) (Hex_parse L keyHex)) = h"
  using assms by (simp add: verifies_def split_on_first split_on_none)

lemma verifies_encryptAES256: "verifies L (encryptAES256 L data keyHex ivHex) keyHex"
  unfolding encryptAES256_form
  by (simp add: verifies_sealed_with Base64_stringify_no_bar Hex_stringify_no_bar Base64_roundtrip)

lemma base64Field_encryptAES256:
  "takeWhile (\<lambda>c. c \<noteq> CHR ''|'') (encryptAES256 L data keyHex ivHex)
     = Base64_stringify (sealedCipher L data keyHex ivHex)"
  unfolding encryptAES256_form by (simp add: takeWhile_sep Base64_stringify_no_bar)

lemma decryptAES256_same_cipher:
  assumes "verifies L s keyHex"
    and "Base64_parse (takeWhile (\<lambda>c. c \<noteq> CHR ''|'') s) = sealedCipher L data keyHex ivHex"
    and "aes_inverts L data keyHex ivHex"
  shows "decryptAES256 L s keyHex ivHex = Some data"
  using assms by (simp add: decryptAES256_verified aes_inverts_def sealedCipher_def)

lemma decryptAES256_encryptAES256:
  assumes "aes_inverts L data keyHex ivHex"
  shows "decryptAES256 L (encryptAES256 L data keyHex ivHex) keyHex ivHex = Some data"
  using verifies_encryptAES256 _ assms
  by (rule decryptAES256_same_cipher) (simp add: base64Field_encryptAES256 Base64_roundtrip)

subsection \<open>Alterations of one character\<close>




subsection \<open>The document envelope\<close>

lemma encryptDocument_fields:
  "encryptedData (encryptDocument L t D K)
     = encryptAES256 L D (fst (generateFEK t)) (dataIV (encryptDocument L t D K))"
  "encryptedFEK (encryptDocument L t D K)
     = encryptAES256 L (fst (generateFEK t)) K (fekIV (encryptDocument L t D K))"
  by (simp_all add: encryptDocument_def split_beta Let_def)

lemma length_generateFEK: "length (fst (generateFEK t)) = 64"
  by (simp add: generateFEK_def generateRandomBytes_def getRandomBytesAsync_def length_Hex_stringify)

lemma generateFEK_nonempty: "fst (generateFEK t) \<noteq> []"
  using length_generateFEK [of t] by auto

lemma decryptDocument_unwrapped:
  assumes "decryptAES256 L ef K fiv = Some (fst (generateFEK t))"
  shows "decryptDocument L ed ef fiv div' K = decryptAES256 L ed (fst (generateFEK t)) div'"
  using assms generateFEK_nonempty [of t] by (simp add: decryptDocument_def)

lemma decryptDocument_encryptDocument:
  assumes "aes_inverts L D (fst (generateFEK t)) (dataIV (encryptDocument L t D K))"
    and "aes_inverts L (fst (generateFEK t)) K (fekIV (encryptDocument L t D K))"
  shows "decryptDocument L (encryptedData (encryptDocument L t D K))
           (encryptedFEK (encryptDocument L t D K)) (fekIV (encryptDocument L t D K))
           (dataIV (encryptDocument L t D K)) K = Some D"
proof -
  let ?r = "encryptDocument L t D K"
  have "decryptAES256 L (encryptedFEK ?r) K (fekIV ?r) = Some (fst (generateFEK t))"
    unfolding encryptDocument_fields using assms(2) by (rule decryptAES256_encryptAES256)
  then have "decryptDocument L (encryptedData ?r) (encryptedFEK ?r) (fekIV ?r) (dataIV ?r) K
      = decryptAES256 L (encryptedData ?r) (fst (generateFEK t)) (dataIV ?r)"
    by (rule decryptDocument_unwrapped)
  also have "\<dots> = Some D"
    unfolding encryptDocument_fields using assms(1) by (rule decryptAES256_encryptAES256)
  finally show ?thesis .
qed

subsection \<open>The stand-in cipher inverts itself\<close>

lemma pkcs7_unpad_pad: "pkcs7_unpad (pkcs7_pad bs) = bs"
proof -
  define n where "n = 16 - length bs mod 16"
  have n: "0 < n" "n \<le> 16" unfolding n_def by simp_all
  then have u: "unat (of_nat n :: byte) = n"
    by (simp add: unat_of_nat)
  from n have "last (bs @ replicate n (of_nat n :: byte)) = of_nat n" by simp
  with n u show ?thesis
    unfolding pkcs7_unpad_def pkcs7_pad_def Let_def n_def [symmetric] by simp
qed

lemma xor_twice: "map ((\<lambda>b. b XOR k) \<circ> (\<lambda>b. b XOR k)) bs = (bs :: bytes)"
  by (induction bs) (simp_all add: xor.assoc)

lemma ex_Utf8_of_char:
  assumes "list_all (\<lambda>c. (of_char c :: nat) < 128) s"
  shows "ex_Utf8_stringify (map of_char s) = Returns s"
proof -
  have u: "unat (of_char c :: byte) = of_char c" for c
  proof -
    have "(of_char c :: byte) = of_nat (of_char c)" by (simp add: of_nat_of_char)
    then show ?thesis by (simp add: unat_of_nat)
  qed
  from assms have "list_all (\<lambda>b. unat b < 128) (map of_char s :: bytes)"
    by (simp add: list_all_iff u)
  moreover have "map (\<lambda>b. char_of (unat b)) (map of_char s :: bytes) = s"
    by (simp add: u map_idI)
  ultimately show ?thesis by (simp add: ex_Utf8_stringify_def)
qed

lemma ex_aes_inverts:
  assumes "list_all (\<lambda>c. (of_char c :: nat) < 128) data"
  shows "aes_inverts ex_cryptojs data keyHex ivHex"
  using assms
  by (simp add: aes_inverts_def ex_cryptojs_def ex_AES_encrypt_def ex_AES_decrypt_def xor_twice
      pkcs7_unpad_pad ex_Utf8_of_char)

lemma hexDigit_ascii: "(of_char (hexDigit n) :: nat) < 128"
proof -
  have "n mod 16 < length ''0123456789abcdef''" by simp
  then have "''0123456789abcdef'' ! (n mod 16) \<in> set ''0123456789abcdef''"
    by (rule nth_mem)
  then show ?thesis unfolding hexDigit_def by auto
qed

lemma Hex_stringify_ascii: "list_all (\<lambda>c. (of_char c :: nat) < 128) (Hex_stringify bs)"
  by (induction bs) (simp_all add: Hex_stringify_def hexByte_def hexDigit_ascii)

lemma generateFEK_ascii: "list_all (\<lambda>c. (of_char c :: nat) < 128) (fst (generateFEK t))"
  by (simp add: generateFEK_def generateRandomBytes_def getRandomBytesAsync_def Hex_stringify_ascii)

subsection \<open>Alterations of a sealed value\<close>









subsection \<open>Alterations and the document envelope\<close>






subsection \<open>Evaluation of the example envelope\<close>








subsection \<open>Padding characters of the sealed example\<close>







subsection \<open>An altered ciphertext of the sealed example\<close>





section \<open>Properties of the vault engine\<close>

subsection \<open>Evaluation of the example values\<close>

lemma ex_secureData_eval:
  "ex_secureData p d =
     \<lparr>pinHash = ''030a11181f262d343b424950575e656c$'' @ p,
      pinSalt = ''030a11181f262d343b424950575e656c'',
      duressHash = ''737a81888f969da4abb2b9c0c7ced5dc$'' @ d,
      duressSalt = ''737a81888f969da4abb2b9c0c7ced5dc'',
      masterKeySalt = ''e3eaf1f8ff060d141b222930373e454c'',
      biometricEnabled = False, setupComplete = True\<rparr>"
  by (simp add: ex_secureData_def newSecureData_def ex_generatePinSalt_def generateSalt_def
      generateRandomBytes_def getRandomBytesAsync_def SALT_SIZE_def ex_rng_def ex_hashPin_def
      initialStore_def Hex_stringify_def hexByte_def hexDigit_def upt_rec)

lemma ex_locked_eval:
  "ex_locked p d =
     \<lparr>appState = VAULT_LOCKED, user = Some ex_user, secureData = Some (ex_secureData p d),
      vaultMetadata = Some ex_metadata, masterKey = None, isLoading = False, error = None\<rparr>"
  by (simp add: ex_locked_def ex_signIn_def ex_authResult_def signIn_def initialStore_def
      stateAfterLoad_def ex_secureData_eval)

lemma run_ex_signIn:
  "run ex_generatePinSalt ex_hashPin ex_cryptojs (ex_signIn p d # acts)
     = foldl (dispatch ex_generatePinSalt ex_hashPin ex_cryptojs) (ex_locked p d) acts"
  by (simp add: run_def ex_locked_def)

subsection \<open>Unlocking the vault\<close>

text \<open>
  C1. Let the Credential Record hold a primary commitment derived from PIN 482913 and a
  duress commitment derived from PIN 001122, and let the hash tell the three PINs apart
  under the two stored salts. From the locked state, \<open>unlockVault\<close> with 482913 returns
  success and moves to \<open>VAULT_UNLOCKED\<close> with the derived master key; with 001122 it returns
  duress and moves to \<open>DURESS_MODE\<close> with the master key null; with 999999 it returns
  failed and leaves the store as it was.
\<close>

theorem unlockVault_three_pins:
  assumes sd: "secureData st = Some sd"
    and locked: "appState st = VAULT_LOCKED"
    and primary: "pinHash sd = H ''482913'' (pinSalt sd)"
    and duress: "duressHash sd = H ''001122'' (duressSalt sd)"
    and nc1: "H ''482913'' (duressSalt sd) \<noteq> H ''001122'' (duressSalt sd)"
    and nc2: "H ''999999'' (duressSalt sd) \<noteq> H ''001122'' (duressSalt sd)"
    and nc3: "H ''999999'' (pinSalt sd) \<noteq> H ''482913'' (pinSalt sd)"
  shows "unlockVault H L ''482913'' st =
           (Success, st\<lparr>appState := VAULT_UNLOCKED,
                         masterKey := Some (deriveMasterKey L ''482913'' (masterKeySalt sd))\<rparr>)
       \<and> unlockVault H L ''001122'' st = (Duress, st\<lparr>appState := DURESS_MODE, masterKey := None\<rparr>)
       \<and> unlockVault H L ''999999'' st = (Failed, st)"
  using assms by (simp add: unlockVault_def verifyPin_def)

theorem unlockVault_three_pins_witness:
  "fst (unlockVault ex_hashPin ex_cryptojs ''482913'' (ex_locked ''482913'' ''001122'')) = Success
   \<and> appState (snd (unlockVault ex_hashPin ex_cryptojs ''482913'' (ex_locked ''482913'' ''001122'')))
       = VAULT_UNLOCKED
   \<and> masterKey (snd (unlockVault ex_hashPin ex_cryptojs ''482913'' (ex_locked ''482913'' ''001122'')))
       \<noteq> None
   \<and> unlockVault ex_hashPin ex_cryptojs ''001122'' (ex_locked ''482913'' ''001122'')
       = (Duress, (ex_locked ''482913'' ''001122'')\<lparr>appState := DURESS_MODE, masterKey := None\<rparr>)
   \<and> unlockVault ex_hashPin ex_cryptojs ''999999'' (ex_locked ''482913'' ''001122'')
       = (Failed, ex_locked ''482913'' ''001122'')"
proof -
  let ?st = "ex_locked ''482913'' ''001122''"
  let ?sd = "ex_secureData ''482913'' ''001122''"
  have a: "secureData ?st = Some ?sd" "appState ?st = VAULT_LOCKED"
    by (simp_all add: ex_locked_eval)
  have b: "pinHash ?sd = ex_hashPin ''482913'' (pinSalt ?sd)"
    "duressHash ?sd = ex_hashPin ''001122'' (duressSalt ?sd)"
    "ex_hashPin ''482913'' (duressSalt ?sd) \<noteq> ex_hashPin ''001122'' (duressSalt ?sd)"
    "ex_hashPin ''999999'' (duressSalt ?sd) \<noteq> ex_hashPin ''001122'' (duressSalt ?sd)"
    "ex_hashPin ''999999'' (pinSalt ?sd) \<noteq> ex_hashPin ''482913'' (pinSalt ?sd)"
    by (simp_all add: ex_secureData_eval ex_hashPin_def)
  from unlockVault_three_pins [OF a b, of ex_cryptojs]
  show ?thesis by simp
qed

text \<open>
  C10. If the submitted PIN verifies against the duress commitment and also against the
  primary commitment, \<open>unlockVault\<close> returns duress and moves to \<open>DURESS_MODE\<close> with the
  master key null: the duress check comes first, and the result does not depend on the
  key-derivation primitives \<open>L\<close>, which are never called on this path.
\<close>

theorem unlockVault_duress_first:
  assumes "secureData st = Some sd"
    and "verifyPin H pin (duressSalt sd) (duressHash sd)"
    and "verifyPin H pin (pinSalt sd) (pinHash sd)"
  shows "unlockVault H L pin st = (Duress, st\<lparr>appState := DURESS_MODE, masterKey := None\<rparr>)"
  using assms by (simp add: unlockVault_def)

theorem unlockVault_duress_first_witness:
  "unlockVault ex_hashPin ex_cryptojs ''2468'' (ex_locked ''2468'' ''2468'')
     = (Duress, (ex_locked ''2468'' ''2468'')\<lparr>appState := DURESS_MODE, masterKey := None\<rparr>)"
proof -
  let ?st = "ex_locked ''2468'' ''2468''"
  let ?sd = "ex_secureData ''2468'' ''2468''"
  have a: "secureData ?st = Some ?sd"
    by (simp add: ex_locked_eval)
  have b: "verifyPin ex_hashPin ''2468'' (duressSalt ?sd) (duressHash ?sd)"
    "verifyPin ex_hashPin ''2468'' (pinSalt ?sd) (pinHash ?sd)"
    by (simp_all add: ex_secureData_eval ex_hashPin_def verifyPin_def)
  from unlockVault_duress_first [OF a b] show ?thesis .
qed

subsection \<open>The master key and the session state\<close>

lemma stateAfterLoad_cases:
  "stateAfterLoad sd = VAULT_LOCKED \<or> stateAfterLoad sd = AUTHENTICATED"
  by (simp add: stateAfterLoad_def split: option.splits)

lemma dispatch_keyInv:
  assumes inv: "keyInv st"
  shows "keyInv (dispatch G H L st a)"
proof (cases a)
  case (Initialize session sd md now)
  then show ?thesis using inv stateAfterLoad_cases[of sd]
    by (auto simp: keyInv_def initialize_def Let_def split: outcome.splits option.splits)
next
  case (SignIn res sd md now)
  then show ?thesis using inv stateAfterLoad_cases[of sd]
    by (auto simp: keyInv_def signIn_def Let_def split: outcome.splits option.splits bool.splits)
next
  case (SignUp res now)
  then show ?thesis using inv
    by (auto simp: keyInv_def signUp_def Let_def split: outcome.splits option.splits bool.splits)
next
  case (SignOut res)
  then show ?thesis using inv
    by (auto simp: keyInv_def signOut_def Let_def split: outcome.splits)
next
  case (SetupPins rnd p d)
  then show ?thesis using inv
    by (auto simp: keyInv_def setupPins_def split: outcome.splits)
next
  case (EnableBiometrics e)
  then show ?thesis using inv
    by (auto simp: keyInv_def enableBiometrics_def split: option.splits)
next
  case CompleteSetup
  then show ?thesis using inv
    by (auto simp: keyInv_def completeSetup_def split: option.splits)
next
  case (UnlockVault pin)
  then show ?thesis using inv
    by (auto simp: keyInv_def unlockVault_def split: option.splits)
next
  case LockVault
  then show ?thesis using inv by (simp add: keyInv_def lockVault_def)
next
  case (AddDocument doc now)
  then show ?thesis using inv
    by (auto simp: keyInv_def addDocument_def split: option.splits)
next
  case (RemoveDocument i now)
  then show ?thesis using inv
    by (auto simp: keyInv_def removeDocument_def split: option.splits)
qed

lemma foldl_keyInv: "keyInv st \<Longrightarrow> keyInv (foldl (dispatch G H L) st acts)"
  by (induction acts arbitrary: st) (simp_all add: dispatch_keyInv)

lemma dispatch_keyIff:
  assumes inv: "keyIff st" and free: "resetsSession a \<longrightarrow> masterKey st = None"
  shows "keyIff (dispatch G H L st a)"
proof (cases a)
  case (Initialize session sd md now)
  then show ?thesis using inv free stateAfterLoad_cases[of sd]
    by (auto simp: keyIff_def initialize_def Let_def split: outcome.splits option.splits)
next
  case (SignIn res sd md now)
  then show ?thesis using inv free stateAfterLoad_cases[of sd]
    by (auto simp: keyIff_def signIn_def Let_def split: outcome.splits option.splits bool.splits)
next
  case (SignUp res now)
  then show ?thesis using inv free
    by (auto simp: keyIff_def signUp_def Let_def split: outcome.splits option.splits bool.splits)
next
  case (SignOut res)
  then show ?thesis using inv
    by (auto simp: keyIff_def signOut_def Let_def split: outcome.splits)
next
  case (SetupPins rnd p d)
  then show ?thesis using inv
    by (auto simp: keyIff_def setupPins_def split: outcome.splits)
next
  case (EnableBiometrics e)
  then show ?thesis using inv
    by (auto simp: keyIff_def enableBiometrics_def split: option.splits)
next
  case CompleteSetup
  then show ?thesis using inv free
    by (auto simp: keyIff_def completeSetup_def split: option.splits)
next
  case (UnlockVault pin)
  then show ?thesis using inv
    by (auto simp: keyIff_def unlockVault_def split: option.splits)
next
  case LockVault
  then show ?thesis by (simp add: keyIff_def lockVault_def)
next
  case (AddDocument doc now)
  then show ?thesis using inv
    by (auto simp: keyIff_def addDocument_def split: option.splits)
next
  case (RemoveDocument i now)
  then show ?thesis using inv
    by (auto simp: keyIff_def removeDocument_def split: option.splits)
qed

lemma foldl_keyIff:
  "keyIff st \<Longrightarrow> keyFreeResets G H L st acts \<Longrightarrow> keyIff (foldl (dispatch G H L) st acts)"
  by (induction acts arbitrary: st) (simp_all add: dispatch_keyIff)

text \<open>
  C2, as stated, fails on a sequence that dispatches \<open>initialize\<close> on an unlocked store:
  here the store is signed in, unlocked with the primary PIN and initialized again, and
  the master key is non-null in \<open>VAULT_LOCKED\<close>.
\<close>

theorem masterKey_iff_unlocked_counterexample:
  "appState (run ex_generatePinSalt ex_hashPin ex_cryptojs
      [ex_signIn ''482913'' ''001122'', UnlockVault ''482913'',
       Initialize (Returns (Some ex_user)) (Some (ex_secureData ''482913'' ''001122''))
         (Some ex_metadata) 1]) = VAULT_LOCKED
   \<and> masterKey (run ex_generatePinSalt ex_hashPin ex_cryptojs
      [ex_signIn ''482913'' ''001122'', UnlockVault ''482913'',
       Initialize (Returns (Some ex_user)) (Some (ex_secureData ''482913'' ''001122''))
         (Some ex_metadata) 1]) \<noteq> None"
  by (simp add: run_ex_signIn ex_locked_eval unlockVault_def verifyPin_def initialize_def
      stateAfterLoad_def ex_secureData_eval ex_hashPin_def)

text \<open>
  C2, amended. In every store reached from the initial store by a sequence of store
  actions in which \<open>initialize\<close>, \<open>signIn\<close>, \<open>signUp\<close> and \<open>completeSetup\<close> are dispatched
  only on a store that holds no master key, the master key is non-null if and only if
  the session state is \<open>VAULT_UNLOCKED\<close>. On every sequence of store actions, in
  \<open>VAULT_UNLOCKED\<close> the master key is non-null and in \<open>DURESS_MODE\<close>, the decoy-unlocked
  state, no master key exists.
\<close>

theorem masterKey_invariant:
  "(keyFreeResets G H L initialStore acts
      \<longrightarrow> (masterKey (run G H L acts) \<noteq> None) = (appState (run G H L acts) = VAULT_UNLOCKED))
   \<and> (appState (run G H L acts) = VAULT_UNLOCKED \<longrightarrow> masterKey (run G H L acts) \<noteq> None)
   \<and> (appState (run G H L acts) = DURESS_MODE \<longrightarrow> masterKey (run G H L acts) = None)"
proof (intro conjI impI)
  assume "keyFreeResets G H L initialStore acts"
  moreover have "keyIff initialStore" by (simp add: keyIff_def initialStore_def)
  ultimately have "keyIff (run G H L acts)" unfolding run_def by (intro foldl_keyIff)
  then show "(masterKey (run G H L acts) \<noteq> None) = (appState (run G H L acts) = VAULT_UNLOCKED)"
    by (simp add: keyIff_def)
next
  have "keyInv initialStore" by (simp add: keyInv_def initialStore_def)
  then have inv: "keyInv (run G H L acts)" unfolding run_def by (rule foldl_keyInv)
  {
    assume "appState (run G H L acts) = VAULT_UNLOCKED"
    with inv show "masterKey (run G H L acts) \<noteq> None" by (simp add: keyInv_def)
  next
    assume "appState (run G H L acts) = DURESS_MODE"
    with inv show "masterKey (run G H L acts) = None" by (simp add: keyInv_def)
  }
qed

theorem masterKey_invariant_witness:
  "masterKey (run ex_generatePinSalt ex_hashPin ex_cryptojs
      [ex_signIn ''482913'' ''001122'', UnlockVault ''482913'']) \<noteq> None
   \<and> appState (run ex_generatePinSalt ex_hashPin ex_cryptojs
      [ex_signIn ''482913'' ''001122'', UnlockVault ''482913'']) = VAULT_UNLOCKED
   \<and> masterKey (run ex_generatePinSalt ex_hashPin ex_cryptojs
      [ex_signIn ''482913'' ''001122'', UnlockVault ''482913'', LockVault]) = None
   \<and> appState (run ex_generatePinSalt ex_hashPin ex_cryptojs
      [ex_signIn ''482913'' ''001122'', UnlockVault ''482913'', LockVault]) = VAULT_LOCKED
   \<and> masterKey (run ex_generatePinSalt ex_hashPin ex_cryptojs
      [ex_signIn ''482913'' ''001122'', UnlockVault ''001122'']) = None
   \<and> appState (run ex_generatePinSalt ex_hashPin ex_cryptojs
      [ex_signIn ''482913'' ''001122'', UnlockVault ''001122'']) = DURESS_MODE"
proof -
  let ?u = "[ex_signIn ''482913'' ''001122'', UnlockVault ''482913'']"
  let ?l = "[ex_signIn ''482913'' ''001122'', UnlockVault ''482913'', LockVault]"
  let ?d = "[ex_signIn ''482913'' ''001122'', UnlockVault ''001122'']"
  have g: "keyFreeResets ex_generatePinSalt ex_hashPin ex_cryptojs initialStore ?u"
    "keyFreeResets ex_generatePinSalt ex_hashPin ex_cryptojs initialStore ?l"
    "keyFreeResets ex_generatePinSalt ex_hashPin ex_cryptojs initialStore ?d"
    by (simp_all add: ex_signIn_def initialStore_def)
  have u: "appState (run ex_generatePinSalt ex_hashPin ex_cryptojs ?u) = VAULT_UNLOCKED"
    by (simp add: run_ex_signIn ex_locked_eval unlockVault_def verifyPin_def
        ex_secureData_eval ex_hashPin_def)
  have l: "appState (run ex_generatePinSalt ex_hashPin ex_cryptojs ?l) = VAULT_LOCKED"
    by (simp add: run_ex_signIn ex_locked_eval unlockVault_def verifyPin_def lockVault_def
        ex_secureData_eval ex_hashPin_def)
  have d: "appState (run ex_generatePinSalt ex_hashPin ex_cryptojs ?d) = DURESS_MODE"
    by (simp add: run_ex_signIn ex_locked_eval unlockVault_def verifyPin_def
        ex_secureData_eval ex_hashPin_def)
  from g u l d
    masterKey_invariant [of ex_generatePinSalt ex_hashPin ex_cryptojs ?u]
    masterKey_invariant [of ex_generatePinSalt ex_hashPin ex_cryptojs ?l]
    masterKey_invariant [of ex_generatePinSalt ex_hashPin ex_cryptojs ?d]
  show ?thesis by simp
qed

subsection \<open>Routing of document operations\<close>

text \<open>
  C5. In \<open>DURESS_MODE\<close>, \<open>addDocument\<close> appends to the decoy documents only,
  \<open>removeDocument\<close> filters the decoy documents only, both leave the real documents as
  they were, and \<open>getDocuments\<close> returns the decoy documents. In every other state the
  same operations append to, filter and return the real documents and leave the decoy
  documents as they were. (Without vault metadata there is no collection: the store is
  left as it is and \<open>getDocuments\<close> returns the empty list.)
\<close>

theorem document_routing:
  "(appState st = DURESS_MODE \<longrightarrow>
      realDocs (addDocument doc now st) = realDocs st
    \<and> decoyDocs (addDocument doc now st) = map_option (\<lambda>ds. ds @ [doc]) (decoyDocs st)
    \<and> realDocs (removeDocument docId now st) = realDocs st
    \<and> decoyDocs (removeDocument docId now st)
        = map_option (filter (\<lambda>d. doc_id d \<noteq> docId)) (decoyDocs st)
    \<and> getDocuments st = (case decoyDocs st of None \<Rightarrow> [] | Some ds \<Rightarrow> ds))
   \<and> (appState st \<noteq> DURESS_MODE \<longrightarrow>
      decoyDocs (addDocument doc now st) = decoyDocs st
    \<and> realDocs (addDocument doc now st) = map_option (\<lambda>ds. ds @ [doc]) (realDocs st)
    \<and> decoyDocs (removeDocument docId now st) = decoyDocs st
    \<and> realDocs (removeDocument docId now st)
        = map_option (filter (\<lambda>d. doc_id d \<noteq> docId)) (realDocs st)
    \<and> getDocuments st = (case realDocs st of None \<Rightarrow> [] | Some ds \<Rightarrow> ds))"
  by (simp add: realDocs_def decoyDocs_def addDocument_def removeDocument_def getDocuments_def
      split: option.splits)

theorem document_routing_witness:
  "realDocs (addDocument (ex_doc ''x'') 5 ((ex_locked ''482913'' ''001122'')\<lparr>appState := DURESS_MODE\<rparr>))
     = Some [ex_doc ''r1'']
   \<and> decoyDocs (addDocument (ex_doc ''x'') 5 ((ex_locked ''482913'' ''001122'')\<lparr>appState := DURESS_MODE\<rparr>))
     = Some [ex_doc ''d1'', ex_doc ''x'']
   \<and> realDocs (removeDocument ''d1'' 5 ((ex_locked ''482913'' ''001122'')\<lparr>appState := DURESS_MODE\<rparr>))
     = Some [ex_doc ''r1'']
   \<and> decoyDocs (removeDocument ''d1'' 5 ((ex_locked ''482913'' ''001122'')\<lparr>appState := DURESS_MODE\<rparr>))
     = Some []
   \<and> getDocuments ((ex_locked ''482913'' ''001122'')\<lparr>appState := DURESS_MODE\<rparr>) = [ex_doc ''d1'']
   \<and> decoyDocs (addDocument (ex_doc ''x'') 5 ((ex_locked ''482913'' ''001122'')\<lparr>appState := VAULT_UNLOCKED\<rparr>))
     = Some [ex_doc ''d1'']
   \<and> realDocs (addDocument (ex_doc ''x'') 5 ((ex_locked ''482913'' ''001122'')\<lparr>appState := VAULT_UNLOCKED\<rparr>))
     = Some [ex_doc ''r1'', ex_doc ''x'']
   \<and> decoyDocs (removeDocument ''r1'' 5 ((ex_locked ''482913'' ''001122'')\<lparr>appState := VAULT_UNLOCKED\<rparr>))
     = Some [ex_doc ''d1'']
   \<and> realDocs (removeDocument ''r1'' 5 ((ex_locked ''482913'' ''001122'')\<lparr>appState := VAULT_UNLOCKED\<rparr>))
     = Some []
   \<and> getDocuments ((ex_locked ''482913'' ''001122'')\<lparr>appState := VAULT_UNLOCKED\<rparr>) = [ex_doc ''r1'']"
proof -
  let ?d = "(ex_locked ''482913'' ''001122'')\<lparr>appState := DURESS_MODE\<rparr>"
  let ?u = "(ex_locked ''482913'' ''001122'')\<lparr>appState := VAULT_UNLOCKED\<rparr>"
  have s: "appState ?d = DURESS_MODE" "appState ?u \<noteq> DURESS_MODE"
    "realDocs ?d = Some [ex_doc ''r1'']" "decoyDocs ?d = Some [ex_doc ''d1'']"
    "realDocs ?u = Some [ex_doc ''r1'']" "decoyDocs ?u = Some [ex_doc ''d1'']"
    by (simp_all add: ex_locked_eval realDocs_def decoyDocs_def ex_metadata_def)
  have i: "doc_id (ex_doc ''d1'') = ''d1''" "doc_id (ex_doc ''r1'') = ''r1''"
    by (simp_all add: ex_doc_def)
  from s i
    document_routing [of ?d "ex_doc ''x''" 5 "''d1''"]
    document_routing [of ?u "ex_doc ''x''" 5 "''r1''"]
  show ?thesis by simp
qed

subsection \<open>Compensating cleanup of a failed upload\<close>

lemma uploadLoop_failure_restores:
  assumes "uploadLoop up RemoveOk userId n i ids rest cur = (Inl e, s')"
    and "cur |` (- set (map (filePath userId) ids)) = store"
    and "\<forall>sh \<in> set rest. filePath userId (shard_id sh) \<notin> dom store"
  shows "s' = store"
  using assms
proof (induction rest arbitrary: i ids cur)
  case Nil
  then show ?case by simp
next
  case (Cons sh rest)
  show ?case
  proof (cases "up i")
    case UploadOk
    let ?p = "filePath userId (shard_id sh)"
    let ?cur1 = "cur(?p \<mapsto> shard_data sh)"
    from Cons.prems(1) UploadOk
    have run: "uploadLoop up RemoveOk userId n (i + 1) (ids @ [shard_id sh]) rest ?cur1 = (Inl e, s')"
      by (simp add: uploadShard_def)
    from Cons.prems(3) have np: "store ?p = None" by auto
    have "?cur1 |` (- set (map (filePath userId) (ids @ [shard_id sh]))) = store"
    proof (rule ext)
      fix q
      show "(?cur1 |` (- set (map (filePath userId) (ids @ [shard_id sh])))) q = store q"
        using Cons.prems(2) np by (auto simp: restrict_map_def fun_eq_iff split: if_splits)
    qed
    moreover from Cons.prems(3) have "\<forall>sh \<in> set rest. filePath userId (shard_id sh) \<notin> dom store"
      by simp
    ultimately show ?thesis by (rule Cons.IH [OF run])
  next
    case (UploadError m)
    with Cons.prems(1,2) show ?thesis by (auto simp: uploadShard_def cleanupShards_def)
  next
    case (UploadThrows m)
    with Cons.prems(1,2) show ?thesis by (auto simp: uploadShard_def cleanupShards_def)
  qed
qed

lemma uploadLoop_surfaces_failure:
  assumes "k < length rest" and "up (i + k) \<noteq> UploadOk"
  shows "isl (fst (uploadLoop up rm userId n i ids rest cur))"
  using assms
proof (induction rest arbitrary: i ids cur k)
  case Nil
  then show ?case by simp
next
  case (Cons sh rest)
  show ?case
  proof (cases "up i")
    case UploadOk
    with Cons.prems obtain k' where k: "k = Suc k'" by (cases k) auto
    with Cons.prems have "k' < length rest" "up ((i + 1) + k') \<noteq> UploadOk" by simp_all
    from Cons.IH [OF this] UploadOk show ?thesis by (simp add: uploadShard_def)
  next
    case (UploadError m)
    then show ?thesis by (simp add: uploadShard_def)
  next
    case (UploadThrows m)
    then show ?thesis by (simp add: uploadShard_def)
  qed
qed

text \<open>
  C7, amended. If the upload of some shard of a document fails and the store carries out
  the removal that \<open>cleanupShards\<close> requests, then \<open>uploadAllShards\<close> returns the failure
  and, the shard paths having been free before the upload, leaves the blob store exactly
  as it was: no shard of the document remains in it.
\<close>

theorem upload_failure_cleans_up:
  assumes "i < length shards" and "up i \<noteq> UploadOk"
    and fresh: "\<forall>sh \<in> set shards. filePath userId (shard_id sh) \<notin> dom store"
  shows "isl (fst (uploadAllShards up RemoveOk shards userId store))
       \<and> snd (uploadAllShards up RemoveOk shards userId store) = store
       \<and> (\<forall>sh \<in> set shards.
            filePath userId (shard_id sh) \<notin> dom (snd (uploadAllShards up RemoveOk shards userId store)))"
proof -
  let ?r = "uploadAllShards up RemoveOk shards userId store"
  from assms(1,2) have f: "isl (fst ?r)"
    unfolding uploadAllShards_def using uploadLoop_surfaces_failure [of i shards up 0] by simp
  then obtain e where "?r = (Inl e, snd ?r)" by (cases ?r) (auto simp: isl_def)
  then have "uploadLoop up RemoveOk userId (length shards) 0 [] shards store = (Inl e, snd ?r)"
    by (simp add: uploadAllShards_def)
  moreover have "store |` (- set (map (filePath userId) [])) = store"
    by (simp add: restrict_map_def)
  ultimately have s: "snd ?r = store" using fresh by (rule uploadLoop_failure_restores)
  with f fresh show ?thesis by simp
qed

lemma ex_upload_eval:
  "uploadAllShards ex_secondFails rm ex_shards ''u1'' Map.empty
     = (Inl ''Shard 2/3 failed: network'',
        cleanupShards rm [''s0''] ''u1'' [''u1/s0'' \<mapsto> ''abc''])"
  by (simp add: uploadAllShards_def ex_shards_def ex_secondFails_def uploadShard_def filePath_def
      showNat.simps)

theorem upload_failure_cleans_up_witness:
  "isl (fst (uploadAllShards ex_secondFails RemoveOk ex_shards ''u1'' Map.empty))
   \<and> snd (uploadAllShards ex_secondFails RemoveOk ex_shards ''u1'' Map.empty) = Map.empty"
proof -
  have a: "(1::nat) < length ex_shards" "ex_secondFails 1 \<noteq> UploadOk"
    by (simp_all add: ex_shards_def ex_secondFails_def)
  have b: "\<forall>sh \<in> set ex_shards. filePath ''u1'' (shard_id sh) \<notin> dom (Map.empty :: blobstore)"
    by simp
  from a b upload_failure_cleans_up [of 1 ex_shards ex_secondFails "''u1''" Map.empty]
  show ?thesis by simp
qed

text \<open>
  C7, as stated, fails when the removal itself fails: \<open>cleanupShards\<close> ignores the
  store's answer and catches what it throws. Here the second of three uploads fails and
  the store answers the removal with an error: the failure is returned and the first
  shard is still in the store.
\<close>

theorem upload_cleanup_counterexample:
  "fst (uploadAllShards ex_secondFails (RemoveError ''unavailable'') ex_shards ''u1'' Map.empty)
     = Inl ''Shard 2/3 failed: network''
   \<and> snd (uploadAllShards ex_secondFails (RemoveError ''unavailable'') ex_shards ''u1'' Map.empty)
       (filePath ''u1'' ''s0'') = Some ''abc''"
  by (simp add: ex_upload_eval cleanupShards_def filePath_def)

subsection \<open>Splitting and reassembling (spec-modelled)\<close>

lemma splitIntoShards_eval:
  "splitIntoShards t payload =
     [\<lparr>shard_id = Hex_stringify (map t [0..<16]),
       shard_data = take ((length payload + 2) div 3) payload, shard_index = 0\<rparr>,
      \<lparr>shard_id = Hex_stringify (map t [16..<32]),
       shard_data = take ((length payload + 2) div 3) (drop ((length payload + 2) div 3) payload),
       shard_index = 1\<rparr>,
      \<lparr>shard_id = Hex_stringify (map t [32..<48]),
       shard_data = take ((length payload + 2) div 3) (drop (2 * ((length payload + 2) div 3)) payload),
       shard_index = 2\<rparr>]"
proof -
  have u: "[0..<NUM_SHARDS] = [0, 1, 2]"
    by code_simp
  show ?thesis
    unfolding splitIntoShards_def Let_def u by (simp add: NUM_SHARDS_def)
qed

lemma three_chunks: "take n p @ take n (drop n p) @ drop (2 * n) p = p"
proof -
  have "take n (drop n p) @ drop n (drop n p) = drop n p"
    by (rule append_take_drop_id)
  then have "take n (drop n p) @ drop (2 * n) p = drop n p"
    by (simp add: mult_2)
  then show ?thesis by simp
qed

lemma concat_splitIntoShards: "concat (map shard_data (splitIntoShards t payload)) = payload"
proof -
  let ?c = "(length payload + 2) div 3"
  have "length payload \<le> 3 * ?c" by arith
  then have "take ?c (drop (2 * ?c) payload) = drop (2 * ?c) payload"
    by simp
  then have "concat (map shard_data (splitIntoShards t payload))
      = take ?c payload @ take ?c (drop ?c payload) @ drop (2 * ?c) payload"
    unfolding splitIntoShards_eval by simp
  then show ?thesis by (simp only: three_chunks)
qed

lemma sort_splitIntoShards:
  assumes "mset shards = mset (splitIntoShards t payload)"
  shows "sort_key shard_index shards = splitIntoShards t payload"
proof (rule properties_for_sort_key)
  let ?ys = "splitIntoShards t payload"
  show "mset ?ys = mset shards" using assms by simp
  show "sorted (map shard_index ?ys)" by (simp add: splitIntoShards_eval)
  fix k assume k: "k \<in> set ?ys"
  let ?P = "\<lambda>x. shard_index k = shard_index x"
  from k have one: "filter ?P ?ys = [k]" by (auto simp: splitIntoShards_eval)
  have "mset (filter ?P shards) = mset (filter ?P ?ys)" using assms by simp
  with one have "mset (filter ?P shards) = {#k#}" by simp
  then have "filter ?P shards = [k]" by (simp only: mset_single_iff)
  with one show "filter ?P ?ys = filter ?P shards" by simp
qed

text \<open>
  C6. For every payload, reassembling the shards produced by splitting it gives the
  payload back, whatever the order in which the shards are supplied: the shards are
  sorted by their index before they are concatenated.
\<close>

theorem reassemble_any_order:
  assumes "mset shards = mset (splitIntoShards t payload)"
  shows "reassembleShards shards = Inr payload"
proof -
  from assms have "length shards = length (splitIntoShards t payload)"
    by (rule mset_eq_length)
  then have "length shards = 3" by (simp add: splitIntoShards_eval)
  with sort_splitIntoShards [OF assms] show ?thesis
    by (simp add: reassembleShards_def NUM_SHARDS_def concat_splitIntoShards)
qed

theorem reassemble_any_order_witness:
  "reassembleShards [splitIntoShards ex_rng ''abcdefgh'' ! 2, splitIntoShards ex_rng ''abcdefgh'' ! 0,
      splitIntoShards ex_rng ''abcdefgh'' ! 1] = Inr ''abcdefgh''"
proof -
  have "mset [splitIntoShards ex_rng ''abcdefgh'' ! 2, splitIntoShards ex_rng ''abcdefgh'' ! 0,
      splitIntoShards ex_rng ''abcdefgh'' ! 1] = mset (splitIntoShards ex_rng ''abcdefgh'')"
    by (simp add: splitIntoShards_eval)
  from reassemble_any_order [OF this] show ?thesis .
qed

subsection \<open>The salts of the Credential Record\<close>



subsection \<open>The document envelope\<close>

text \<open>
  C3. For every document \<open>D\<close> and master key \<open>K\<close>: passing the \<open>encryptedData\<close>,
  \<open>encryptedFEK\<close>, \<open>fekIV\<close> and \<open>dataIV\<close> that \<open>encryptDocument\<close> produced to
  \<open>decryptDocument\<close> with the same key returns exactly \<open>D\<close>, given that the cipher
  inverts itself on the document under the FEK and on the FEK under \<open>K\<close> (decrypting
  an encryption and reading it as UTF-8 gives the message back).
\<close>

theorem document_roundtrip:
  assumes "aes_inverts L D (fst (generateFEK t)) (dataIV (encryptDocument L t D K))"
    and "aes_inverts L (fst (generateFEK t)) K (fekIV (encryptDocument L t D K))"
  shows "decryptDocument L (encryptedData (encryptDocument L t D K))
           (encryptedFEK (encryptDocument L t D K)) (fekIV (encryptDocument L t D K))
           (dataIV (encryptDocument L t D K)) K = Some D"
  using assms by (rule decryptDocument_encryptDocument)

theorem document_roundtrip_witness:
  "decryptDocument ex_cryptojs (encryptedData ex_encrypted) (encryptedFEK ex_encrypted)
     (fekIV ex_encrypted) (dataIV ex_encrypted) ex_masterKey = Some ''SGVsbG8=''"
proof -
  have "list_all (\<lambda>c. (of_char c :: nat) < 128) ''SGVsbG8=''" by simp
  then have a: "aes_inverts ex_cryptojs ''SGVsbG8='' (fst (generateFEK ex_rng)) (dataIV ex_encrypted)"
    by (rule ex_aes_inverts)
  have b: "aes_inverts ex_cryptojs (fst (generateFEK ex_rng)) ex_masterKey (fekIV ex_encrypted)"
    using generateFEK_ascii by (rule ex_aes_inverts)
  from a b show ?thesis
    unfolding ex_encrypted_def by (rule document_roundtrip)
qed




end
